theory Spec2Isabelle
  imports Complex_Main "HOL-Library.Multiset"
begin

section \<open>The Plaid biclustering algorithm of biclustlib\<close>

text \<open>
  A shallow embedding of \<^verbatim>\<open>biclustlib/algorithms/plaid.py\<close>. Matrix entries are
  modelled as real numbers with exact arithmetic. Python integers are \<open>int\<close>; index
  arrays produced by \<^verbatim>\<open>np.where\<close> are lists of naturals.
\<close>

subsection \<open>Errors\<close>

datatype error = ValueError | IndexError

subsection \<open>Two-dimensional arrays\<close>

text \<open>
  A two-dimensional \<^verbatim>\<open>numpy.ndarray\<close>: its shape and its rows. The shape is kept
  beside the rows because an array with no row still has a number of columns.
\<close>

record ndarray =
  shape0 :: nat
  shape1 :: nat
  entries :: "real list list"

definition well_shaped :: "ndarray \<Rightarrow> bool" where
  "well_shaped A = (length (entries A) = shape0 A \<and> list_all (\<lambda>r. length r = shape1 A) (entries A))"

definition cell :: "ndarray \<Rightarrow> nat \<Rightarrow> nat \<Rightarrow> real" where
  "cell A i j = entries A ! i ! j"

definition tabulate :: "nat \<Rightarrow> nat \<Rightarrow> (nat \<Rightarrow> nat \<Rightarrow> real) \<Rightarrow> ndarray" where
  "tabulate n m f =
     \<lparr>shape0 = n, shape1 = m, entries = map (\<lambda>i. map (\<lambda>j. f i j) [0..<m]) [0..<n]\<rparr>"

text \<open>\<^verbatim>\<open>A.T\<close>\<close>

definition transposeT :: "ndarray \<Rightarrow> ndarray" where
  "transposeT A = tabulate (shape1 A) (shape0 A) (\<lambda>j i. cell A i j)"

text \<open>
  \<^verbatim>\<open>A[rows[:, np.newaxis], cols]\<close>: the copy of the cells addressed by the two index
  arrays; an index outside the array raises \<^verbatim>\<open>IndexError\<close>.
\<close>

definition take_sub :: "ndarray \<Rightarrow> nat list \<Rightarrow> nat list \<Rightarrow> error + ndarray" where
  "take_sub A rows cols =
     (if list_all (\<lambda>i. i < shape0 A) rows \<and> list_all (\<lambda>j. j < shape1 A) cols
      then Inr (tabulate (length rows) (length cols) (\<lambda>a b. cell A (rows ! a) (cols ! b)))
      else Inl IndexError)"

text \<open>
  Broadcasting of two shapes along one axis: equal extents, or one of them is 1;
  otherwise numpy raises \<^verbatim>\<open>ValueError\<close>.
\<close>

definition broadcast_dim :: "nat \<Rightarrow> nat \<Rightarrow> error + nat" where
  "broadcast_dim a b =
     (if a = b then Inr a else if a = 1 then Inr b else if b = 1 then Inr a
      else Inl ValueError)"

definition bc :: "nat \<Rightarrow> nat \<Rightarrow> nat" where
  "bc extent i = (if extent = 1 then 0 else i)"

text \<open>An elementwise binary operation of two arrays, with broadcasting.\<close>

definition binop :: "(real \<Rightarrow> real \<Rightarrow> real) \<Rightarrow> ndarray \<Rightarrow> ndarray \<Rightarrow> error + ndarray" where
  "binop f A B =
     (case broadcast_dim (shape0 A) (shape0 B) of
        Inl e \<Rightarrow> Inl e
      | Inr n \<Rightarrow>
          (case broadcast_dim (shape1 A) (shape1 B) of
             Inl e \<Rightarrow> Inl e
           | Inr m \<Rightarrow>
               Inr (tabulate n m (\<lambda>i j.
                      f (cell A (bc (shape0 A) i) (bc (shape1 A) j))
                        (cell B (bc (shape0 B) i) (bc (shape1 B) j))))))"

text \<open>\<^verbatim>\<open>A * A\<close>: both operands have the same shape.\<close>

definition square :: "ndarray \<Rightarrow> ndarray" where
  "square A = tabulate (shape0 A) (shape1 A) (\<lambda>i j. cell A i j * cell A i j)"

text \<open>\<^verbatim>\<open>np.sum(A)\<close>, \<^verbatim>\<open>np.sum(A, axis=1)\<close>\<close>

definition np_sum :: "ndarray \<Rightarrow> real" where
  "np_sum A = sum_list (concat (entries A))"

definition np_sum_axis1 :: "ndarray \<Rightarrow> real list" where
  "np_sum_axis1 A = map sum_list (entries A)"

text \<open>
  \<^verbatim>\<open>np.mean(A)\<close>, \<^verbatim>\<open>np.mean(A, axis=1)\<close>, \<^verbatim>\<open>np.mean(A, axis=0)\<close>. On an array
  with no entry numpy gives \<^verbatim>\<open>nan\<close> (with a warning, no exception) where the
  division below gives 0; such a value never reaches an entry of a layer, because the layer
  of an array without entries has no entry either.
\<close>

definition np_mean :: "ndarray \<Rightarrow> real" where
  "np_mean A = sum_list (concat (entries A)) / real (shape0 A * shape1 A)"

definition np_mean_axis1 :: "ndarray \<Rightarrow> real list" where
  "np_mean_axis1 A = map (\<lambda>r. sum_list r / real (shape1 A)) (entries A)"

definition np_mean_axis0 :: "ndarray \<Rightarrow> real list" where
  "np_mean_axis0 A =
     map (\<lambda>j. sum_list (map (\<lambda>r. r ! j) (entries A)) / real (shape0 A)) [0..<shape1 A]"

text \<open>\<^verbatim>\<open>np.where(cond)[0]\<close> and \<^verbatim>\<open>rows[selected_indices]\<close>\<close>

definition np_where :: "bool list \<Rightarrow> nat list" where
  "np_where bs = filter (\<lambda>k. bs ! k) [0..<length bs]"

definition index_by :: "nat list \<Rightarrow> nat list \<Rightarrow> error + nat list" where
  "index_by rows sel =
     (if list_all (\<lambda>k. k < length rows) sel then Inr (map (\<lambda>k. rows ! k) sel)
      else Inl IndexError)"

text \<open>\<^verbatim>\<open>xs < ys\<close> for one-dimensional arrays, with broadcasting.\<close>

definition less_bc :: "real list \<Rightarrow> real list \<Rightarrow> error + bool list" where
  "less_bc xs ys =
     (case broadcast_dim (length xs) (length ys) of
        Inl e \<Rightarrow> Inl e
      | Inr n \<Rightarrow>
          Inr (map (\<lambda>k. xs ! bc (length xs) k < ys ! bc (length ys) k) [0..<n]))"

subsection \<open>The parameters of the algorithm\<close>

record plaid =
  num_biclusters :: int
  fit_background_layer :: bool
  row_prunning_threshold :: real
  col_prunning_threshold :: real
  significance_tests :: int
  back_fitting_steps :: int
  initialization_iterations :: int
  iterations_per_layer :: int
  return_layers :: bool

text \<open>The defaults of \<^verbatim>\<open>Plaid.__init__\<close>.\<close>

definition default_plaid :: plaid where
  "default_plaid =
     \<lparr>num_biclusters = 10, fit_background_layer = True, row_prunning_threshold = 0.5,
      col_prunning_threshold = 0.5, significance_tests = 3, back_fitting_steps = 1,
      initialization_iterations = 6, iterations_per_layer = 10, return_layers = False\<rparr>"

text \<open>\<^verbatim>\<open>Plaid._validate_parameters\<close>\<close>

definition validate_parameters :: "plaid \<Rightarrow> error + unit" where
  "validate_parameters self =
     (if num_biclusters self \<le> 0 \<or> initialization_iterations self \<le> 0
         \<or> iterations_per_layer self < 0
      then Inl ValueError
      else if significance_tests self < 0 \<or> back_fitting_steps self < 0
      then Inl ValueError
      else if row_prunning_threshold self \<ge> 1 \<or> row_prunning_threshold self \<le> 0
         \<or> col_prunning_threshold self \<ge> 1 \<or> col_prunning_threshold self \<le> 0
      then Inl ValueError
      else Inr ())"

subsection \<open>Layers and pruning\<close>

text \<open>
  \<^verbatim>\<open>Plaid._create_layer\<close>. The last line broadcasts a scalar, a column vector and a
  row vector to the shape (number of row effects, number of column effects).
\<close>

definition create_layer :: "ndarray \<Rightarrow> ndarray" where
  "create_layer residuals =
     (let mean = np_mean residuals;
          row_effects = map (\<lambda>m. m - mean) (np_mean_axis1 residuals);
          col_effects = map (\<lambda>m. m - mean) (np_mean_axis0 residuals)
      in tabulate (length row_effects) (length col_effects)
           (\<lambda>i j. mean + row_effects ! i + col_effects ! j))"

text \<open>\<^verbatim>\<open>Plaid._prune\<close>\<close>

definition prune :: "ndarray \<Rightarrow> ndarray \<Rightarrow> nat list \<Rightarrow> nat list \<Rightarrow> real \<Rightarrow> error + nat list" where
  "prune residuals layer rows cols prunning_threshold =
     (case take_sub residuals rows cols of
        Inl e \<Rightarrow> Inl e
      | Inr res \<Rightarrow>
          (case binop (-) res layer of
             Inl e \<Rightarrow> Inl e
           | Inr diff \<Rightarrow>
               (let sum_squared_diff = np_sum_axis1 (square diff);
                    sum_squared_residuals = np_sum_axis1 (square res)
                in case less_bc sum_squared_diff
                          (map (\<lambda>r. (1 - prunning_threshold) * r) sum_squared_residuals) of
                     Inl e \<Rightarrow> Inl e
                   | Inr selected \<Rightarrow> index_by rows (np_where selected))))"

text \<open>
  The two sides of the pruning inequality for the index at position \<open>k\<close> of \<open>rows\<close>:
  the squared misfit of the layer and the squared size of the residual, summed over the
  selected columns.
\<close>

definition misfit :: "ndarray \<Rightarrow> ndarray \<Rightarrow> nat list \<Rightarrow> nat list \<Rightarrow> nat \<Rightarrow> real" where
  "misfit R L rows cols k = (\<Sum>c<length cols. (cell R (rows ! k) (cols ! c) - cell L k c)\<^sup>2)"

definition energy :: "ndarray \<Rightarrow> nat list \<Rightarrow> nat list \<Rightarrow> nat \<Rightarrow> real" where
  "energy R rows cols k = (\<Sum>c<length cols. (cell R (rows ! k) (cols ! c))\<^sup>2)"

subsection \<open>External primitives\<close>

text \<open>
  \<^verbatim>\<open>sklearn.cluster.k_means\<close> and \<^verbatim>\<open>numpy.random.shuffle\<close> are not part of the
  repository. They are parameters of the model; the state of the random generator, of any
  type \<open>'g\<close>, is passed to them and returned. \<open>k_means env X k n_init g\<close> gives the
  labels (or raises), \<open>shuffle env xs g\<close> the shuffled sequence.
\<close>

record 'g primitives =
  k_means :: "ndarray \<Rightarrow> nat \<Rightarrow> int \<Rightarrow> 'g \<Rightarrow> error + (nat list \<times> 'g)"
  shuffle :: "real list \<Rightarrow> 'g \<Rightarrow> real list \<times> 'g"

text \<open>\<^verbatim>\<open>np.bincount(labels)\<close>: one count for each value from 0 to the largest label.\<close>

definition bincount :: "nat list \<Rightarrow> nat list" where
  "bincount labels =
     (if labels = [] then []
      else map (\<lambda>v. count_list labels v) [0..<Suc (fold max labels 0)])"

subsection \<open>Fitting a layer\<close>

text \<open>
  \<^verbatim>\<open>Plaid._kmeans_initialization\<close>. Unpacking the counts into two names raises
  \<^verbatim>\<open>ValueError\<close> unless there are exactly two of them.
\<close>

definition kmeans_initialization ::
  "'g primitives \<Rightarrow> plaid \<Rightarrow> ndarray \<Rightarrow> 'g \<Rightarrow> error + (nat list \<times> 'g)" where
  "kmeans_initialization env self residuals g =
     (case k_means env residuals 2 (initialization_iterations self) g of
        Inl e \<Rightarrow> Inl e
      | Inr (labels, g') \<Rightarrow>
          (case bincount labels of
             [count0, count1] \<Rightarrow>
               if count0 \<le> count1 then Inr (np_where (map (\<lambda>l. l = 0) labels), g')
               else Inr (np_where (map (\<lambda>l. l = 1) labels), g')
           | _ \<Rightarrow> Inl ValueError))"

text \<open>\<^verbatim>\<open>Plaid._generate_initial_bicluster\<close>\<close>

definition generate_initial_bicluster ::
  "'g primitives \<Rightarrow> plaid \<Rightarrow> ndarray \<Rightarrow> 'g \<Rightarrow> error + (nat list \<times> nat list \<times> 'g)" where
  "generate_initial_bicluster env self residuals g =
     (case kmeans_initialization env self residuals g of
        Inl e \<Rightarrow> Inl e
      | Inr (rows, g1) \<Rightarrow>
          (case kmeans_initialization env self (transposeT residuals) g1 of
             Inl e \<Rightarrow> Inl e
           | Inr (cols, g2) \<Rightarrow> Inr (rows, cols, g2)))"

text \<open>
  The two pruning statements of one round of the loop of \<^verbatim>\<open>Plaid._fit_layer\<close>:
  \<^verbatim>\<open>rows_old = np.copy(rows)\<close>, then the rows, then the columns.
\<close>

definition prune_round ::
  "plaid \<Rightarrow> ndarray \<Rightarrow> ndarray \<Rightarrow> nat list \<Rightarrow> nat list \<Rightarrow> error + (nat list \<times> nat list)" where
  "prune_round self residuals layer rows cols =
     (let rows_old = rows in
      case prune residuals layer rows cols (row_prunning_threshold self) of
        Inl e \<Rightarrow> Inl e
      | Inr rows' \<Rightarrow>
          (case prune (transposeT residuals) (transposeT layer) cols rows_old
                  (col_prunning_threshold self) of
             Inl e \<Rightarrow> Inl e
           | Inr cols' \<Rightarrow> Inr (rows', cols')))"

text \<open>The loop of \<^verbatim>\<open>Plaid._fit_layer\<close>, with the number of rounds left.\<close>

fun fit_rounds ::
  "plaid \<Rightarrow> ndarray \<Rightarrow> nat \<Rightarrow> nat list \<Rightarrow> nat list \<Rightarrow> ndarray
     \<Rightarrow> error + (nat list \<times> nat list \<times> ndarray)" where
  "fit_rounds self residuals 0 rows cols layer = Inr (rows, cols, layer)"
| "fit_rounds self residuals (Suc n) rows cols layer =
     (case prune_round self residuals layer rows cols of
        Inl e \<Rightarrow> Inl e
      | Inr (rows', cols') \<Rightarrow>
          if length rows' = 0 \<or> length cols' = 0 then Inr (rows', cols', layer)
          else (case take_sub residuals rows' cols' of
                  Inl e \<Rightarrow> Inl e
                | Inr sub \<Rightarrow> fit_rounds self residuals n rows' cols' (create_layer sub)))"

text \<open>\<^verbatim>\<open>Plaid._fit_layer\<close>; \<^verbatim>\<open>range(n)\<close> runs \<open>nat n\<close> times.\<close>

definition fit_layer ::
  "'g primitives \<Rightarrow> plaid \<Rightarrow> ndarray \<Rightarrow> 'g
     \<Rightarrow> error + (nat list \<times> nat list \<times> ndarray \<times> 'g)" where
  "fit_layer env self residuals g =
     (case generate_initial_bicluster env self residuals g of
        Inl e \<Rightarrow> Inl e
      | Inr (rows, cols, g') \<Rightarrow>
          (case take_sub residuals rows cols of
             Inl e \<Rightarrow> Inl e
           | Inr sub \<Rightarrow>
               (case fit_rounds self residuals (nat (iterations_per_layer self)) rows cols
                       (create_layer sub) of
                  Inl e \<Rightarrow> Inl e
                | Inr (rows', cols', layer) \<Rightarrow> Inr (rows', cols', layer, g'))))"

subsection \<open>The store\<close>

text \<open>
  Modelled from the spec: the classes \<^verbatim>\<open>Bicluster\<close> and \<^verbatim>\<open>Biclustering\<close> of
  \<^verbatim>\<open>biclustlib/models.py\<close>, which is not among the sources. A Bicluster is a pair of
  a row index array and a column index array. A Biclustering is an ordered sequence of
  Bicluster that is trimmed and extended through the list it was built from: its
  attribute \<^verbatim>\<open>biclusters\<close> is that very list object, not a copy.
\<close>

datatype bicluster = Bicluster (brows: "nat list") (bcols: "nat list")

datatype biclustering = Biclustering (biclusters: nat)

text \<open>
  The objects that are updated in place live in a store and are named by their address:
  the arrays (the caller's matrix, the residuals, the shuffled copy) and the Python lists
  of Bicluster. A new object takes the next free address. Index arrays and layers are
  never updated in place once built, and are values.
\<close>

record store =
  arrays :: "ndarray list"
  lists :: "bicluster list list"

text \<open>\<^verbatim>\<open>np.copy(a)\<close>\<close>

definition np_copy :: "store \<Rightarrow> nat \<Rightarrow> nat \<times> store" where
  "np_copy st a = (length (arrays st), st\<lparr>arrays := arrays st @ [arrays st ! a]\<rparr>)"

definition write_array :: "store \<Rightarrow> nat \<Rightarrow> ndarray \<Rightarrow> store" where
  "write_array st a A = st\<lparr>arrays := (arrays st)[a := A]\<rparr>"

text \<open>\<^verbatim>\<open>[]\<close>, \<^verbatim>\<open>l.append(b)\<close>, \<^verbatim>\<open>l.pop(0)\<close>\<close>

definition new_list :: "store \<Rightarrow> nat \<times> store" where
  "new_list st = (length (lists st), st\<lparr>lists := lists st @ [[]]\<rparr>)"

definition list_append :: "store \<Rightarrow> nat \<Rightarrow> bicluster \<Rightarrow> store" where
  "list_append st l b = st\<lparr>lists := (lists st)[l := lists st ! l @ [b]]\<rparr>"

definition list_pop0 :: "store \<Rightarrow> nat \<Rightarrow> error + store" where
  "list_pop0 st l =
     (case lists st ! l of
        [] \<Rightarrow> Inl IndexError
      | b # bs \<Rightarrow> Inr (st\<lparr>lists := (lists st)[l := bs]\<rparr>))"

subsection \<open>Updates in place\<close>

text \<open>
  \<^verbatim>\<open>A op= B\<close>: the result keeps the shape of \<open>A\<close>, so \<open>B\<close> must broadcast to it.
\<close>

definition inplace :: "(real \<Rightarrow> real \<Rightarrow> real) \<Rightarrow> ndarray \<Rightarrow> ndarray \<Rightarrow> error + ndarray" where
  "inplace f A B =
     (if (shape0 B = shape0 A \<or> shape0 B = 1) \<and> (shape1 B = shape1 A \<or> shape1 B = 1)
      then Inr (tabulate (shape0 A) (shape1 A)
                  (\<lambda>i j. f (cell A i j) (cell B (bc (shape0 B) i) (bc (shape1 B) j))))
      else Inl ValueError)"

definition set_cell :: "ndarray \<Rightarrow> nat \<Rightarrow> nat \<Rightarrow> real \<Rightarrow> ndarray" where
  "set_cell A i j v = A\<lparr>entries := (entries A)[i := (entries A ! i)[j := v]]\<rparr>"

text \<open>
  \<^verbatim>\<open>A[rows[:, np.newaxis], cols] = V\<close>, for indices already known to be in range: the
  cells are written one after the other, row by row.
\<close>

definition put_sub :: "ndarray \<Rightarrow> nat list \<Rightarrow> nat list \<Rightarrow> ndarray \<Rightarrow> ndarray" where
  "put_sub A rows cols V =
     fold (\<lambda>(a, b) M. set_cell M (rows ! a) (cols ! b) (cell V a b))
       (List.product [0..<length rows] [0..<length cols]) A"

text \<open>
  \<^verbatim>\<open>A[rows[:, np.newaxis], cols] op= B\<close>: read the cells, update the copy in place,
  write it back.
\<close>

definition inplace_sub ::
  "(real \<Rightarrow> real \<Rightarrow> real) \<Rightarrow> ndarray \<Rightarrow> nat list \<Rightarrow> nat list \<Rightarrow> ndarray \<Rightarrow> error + ndarray" where
  "inplace_sub f A rows cols B =
     (case take_sub A rows cols of
        Inl e \<Rightarrow> Inl e
      | Inr tmp \<Rightarrow>
          (case inplace f tmp B of
             Inl e \<Rightarrow> Inl e
           | Inr tmp' \<Rightarrow> Inr (put_sub A rows cols tmp')))"

subsection \<open>The significance test\<close>

text \<open>
  \<^verbatim>\<open>np.random.shuffle(a.flat)\<close>: the entries of the array, row by row, are shuffled
  and keep the shape of the array. The shuffle works in place, so the primitive is meant
  to return as many entries as it was given.
\<close>

definition reshape :: "nat \<Rightarrow> nat \<Rightarrow> real list \<Rightarrow> ndarray" where
  "reshape n m xs = tabulate n m (\<lambda>i j. xs ! (i * m + j))"

definition shuffle_flat :: "'g primitives \<Rightarrow> ndarray \<Rightarrow> 'g \<Rightarrow> ndarray \<times> 'g" where
  "shuffle_flat env A g =
     (case shuffle env (concat (entries A)) g of
        (xs, g') \<Rightarrow> (reshape (shape0 A) (shape1 A) xs, g'))"

text \<open>
  The loop of \<^verbatim>\<open>Plaid._is_significant\<close>, with the number of trials left;
  \<open>shuffled_residuals\<close> is the address of the array that is shuffled.
\<close>

fun significance_trials ::
  "'g primitives \<Rightarrow> plaid \<Rightarrow> nat \<Rightarrow> real \<Rightarrow> nat \<Rightarrow> store \<Rightarrow> 'g
     \<Rightarrow> error + (bool \<times> store \<times> 'g)" where
  "significance_trials env self 0 layer_sum_of_squares shuffled_residuals st g =
     Inr (True, st, g)"
| "significance_trials env self (Suc n) layer_sum_of_squares shuffled_residuals st g =
     (case shuffle_flat env (arrays st ! shuffled_residuals) g of
        (shuffled, g1) \<Rightarrow>
          (let st1 = write_array st shuffled_residuals shuffled in
           case fit_layer env self (arrays st1 ! shuffled_residuals) g1 of
             Inl e \<Rightarrow> Inl e
           | Inr (rows, cols, test_layer, g2) \<Rightarrow>
               (let test_layer_sum_of_squares = np_sum (square test_layer) in
                if test_layer_sum_of_squares \<ge> layer_sum_of_squares
                then Inr (False, st1, g2)
                else significance_trials env self n layer_sum_of_squares
                       shuffled_residuals st1 g2)))"

text \<open>\<^verbatim>\<open>Plaid._is_significant\<close>; \<open>residuals\<close> is the address of the residual matrix.\<close>

definition is_significant ::
  "'g primitives \<Rightarrow> plaid \<Rightarrow> store \<Rightarrow> nat \<Rightarrow> ndarray \<Rightarrow> 'g
     \<Rightarrow> error + (bool \<times> store \<times> 'g)" where
  "is_significant env self st residuals layer g =
     (let layer_sum_of_squares = np_sum (square layer) in
      case np_copy st residuals of
        (shuffled_residuals, st1) \<Rightarrow>
          significance_trials env self (nat (significance_tests self)) layer_sum_of_squares
            shuffled_residuals st1 g)"

subsection \<open>Back fitting\<close>

text \<open>
  The inner loop of \<^verbatim>\<open>Plaid._back_fitting\<close> over
  \<^verbatim>\<open>zip(range(len(layers)), biclusters)\<close>.
\<close>

fun back_fitting_pass ::
  "(nat \<times> bicluster) list \<Rightarrow> store \<Rightarrow> nat \<Rightarrow> ndarray list \<Rightarrow> error + (store \<times> ndarray list)" where
  "back_fitting_pass [] st residuals layers = Inr (st, layers)"
| "back_fitting_pass ((j, b) # ps) st residuals layers =
     (case inplace_sub (+) (arrays st ! residuals) (brows b) (bcols b) (layers ! j) of
        Inl e \<Rightarrow> Inl e
      | Inr R1 \<Rightarrow>
          (let st1 = write_array st residuals R1 in
           case take_sub (arrays st1 ! residuals) (brows b) (bcols b) of
             Inl e \<Rightarrow> Inl e
           | Inr sub \<Rightarrow>
               (let layers1 = layers[j := create_layer sub] in
                case inplace_sub (-) (arrays st1 ! residuals) (brows b) (bcols b)
                       (layers1 ! j) of
                  Inl e \<Rightarrow> Inl e
                | Inr R2 \<Rightarrow>
                    back_fitting_pass ps (write_array st1 residuals R2) residuals layers1)))"

text \<open>The outer loop, with the number of steps left; \<open>biclusters_ref\<close> is the address of the list.\<close>

fun back_fitting_steps_loop ::
  "nat \<Rightarrow> store \<Rightarrow> nat \<Rightarrow> ndarray list \<Rightarrow> nat \<Rightarrow> error + (store \<times> ndarray list)" where
  "back_fitting_steps_loop 0 st residuals layers biclusters_ref = Inr (st, layers)"
| "back_fitting_steps_loop (Suc n) st residuals layers biclusters_ref =
     (case back_fitting_pass (zip [0..<length layers] (lists st ! biclusters_ref))
             st residuals layers of
        Inl e \<Rightarrow> Inl e
      | Inr (st1, layers1) \<Rightarrow> back_fitting_steps_loop n st1 residuals layers1 biclusters_ref)"

definition back_fitting ::
  "plaid \<Rightarrow> store \<Rightarrow> nat \<Rightarrow> ndarray list \<Rightarrow> nat \<Rightarrow> error + (store \<times> ndarray list)" where
  "back_fitting self st residuals layers biclusters_ref =
     back_fitting_steps_loop (nat (back_fitting_steps self)) st residuals layers biclusters_ref"

subsection \<open>The run\<close>

text \<open>
  The local variables of \<^verbatim>\<open>Plaid.run\<close> together with the store and the state of the
  random generator.
\<close>

record 'g frame =
  heap :: store
  residuals_ref :: nat
  biclusters_ref :: nat
  layers_val :: "ndarray list"
  num_rows :: nat
  num_cols :: nat
  rng :: 'g

text \<open>What \<^verbatim>\<open>run\<close> returns: a Biclustering, or a Biclustering and the layers.\<close>

datatype outcome = Only biclustering | WithLayers biclustering "ndarray list"

text \<open>\<^verbatim>\<open>np.arange(n)\<close>\<close>

definition arange :: "nat \<Rightarrow> nat list" where
  "arange n = [0..<n]"

text \<open>The statements of \<^verbatim>\<open>run\<close> after the validation and before the first branch.\<close>

definition run_init :: "store \<Rightarrow> nat \<Rightarrow> 'g \<Rightarrow> 'g frame" where
  "run_init st data g =
     (case np_copy st data of
        (residuals, st1) \<Rightarrow>
          (case new_list st1 of
             (biclusters_addr, st2) \<Rightarrow>
               \<lparr>heap = st2, residuals_ref = residuals, biclusters_ref = biclusters_addr,
                layers_val = [], num_rows = shape0 (arrays st1 ! residuals),
                num_cols = shape1 (arrays st1 ! residuals), rng = g\<rparr>))"

text \<open>The branch \<^verbatim>\<open>if self.fit_background_layer\<close>.\<close>

definition run_background :: "plaid \<Rightarrow> 'g frame \<Rightarrow> error + 'g frame" where
  "run_background self fr =
     (if fit_background_layer self then
        (let background_layer = create_layer (arrays (heap fr) ! residuals_ref fr);
             layers1 = layers_val fr @ [background_layer]
         in case inplace (-) (arrays (heap fr) ! residuals_ref fr) background_layer of
              Inl e \<Rightarrow> Inl e
            | Inr R \<Rightarrow>
                (let st1 = write_array (heap fr) (residuals_ref fr) R;
                     st2 = list_append st1 (biclusters_ref fr)
                             (Bicluster (arange (num_rows fr)) (arange (num_cols fr)))
                 in Inr (fr\<lparr>heap := st2, layers_val := layers1\<rparr>)))
      else Inr fr)"

text \<open>
  One iteration of the discovery loop. The boolean tells whether the loop goes on
  (\<open>False\<close> after \<^verbatim>\<open>break\<close>).
\<close>

definition run_iteration :: "'g primitives \<Rightarrow> plaid \<Rightarrow> 'g frame \<Rightarrow> error + (bool \<times> 'g frame)" where
  "run_iteration env self fr =
     (case fit_layer env self (arrays (heap fr) ! residuals_ref fr) (rng fr) of
        Inl e \<Rightarrow> Inl e
      | Inr (rows, cols, bicluster_layer, g1) \<Rightarrow>
          if length rows = 0 \<or> length cols = 0 then Inr (False, fr\<lparr>rng := g1\<rparr>)
          else
            (case is_significant env self (heap fr) (residuals_ref fr) bicluster_layer g1 of
               Inl e \<Rightarrow> Inl e
             | Inr (significant, st1, g2) \<Rightarrow>
                 if \<not> significant then Inr (False, fr\<lparr>heap := st1, rng := g2\<rparr>)
                 else
                   (case inplace_sub (-) (arrays st1 ! residuals_ref fr) rows cols
                           bicluster_layer of
                      Inl e \<Rightarrow> Inl e
                    | Inr R \<Rightarrow>
                        (let st2 = write_array st1 (residuals_ref fr) R;
                             layers1 = layers_val fr @ [bicluster_layer];
                             st3 = list_append st2 (biclusters_ref fr) (Bicluster rows cols)
                         in case back_fitting self st3 (residuals_ref fr) layers1
                                   (biclusters_ref fr) of
                              Inl e \<Rightarrow> Inl e
                            | Inr (st4, layers2) \<Rightarrow>
                                Inr (True, fr\<lparr>heap := st4, layers_val := layers2, rng := g2\<rparr>)))))"

text \<open>The discovery loop, with the number of iterations left.\<close>

fun run_discover :: "'g primitives \<Rightarrow> plaid \<Rightarrow> nat \<Rightarrow> 'g frame \<Rightarrow> error + 'g frame" where
  "run_discover env self 0 fr = Inr fr"
| "run_discover env self (Suc n) fr =
     (case run_iteration env self fr of
        Inl e \<Rightarrow> Inl e
      | Inr (go_on, fr1) \<Rightarrow> if go_on then run_discover env self n fr1 else Inr fr1)"

text \<open>The statements of \<^verbatim>\<open>run\<close> after the loop.\<close>

definition run_finalize :: "plaid \<Rightarrow> 'g frame \<Rightarrow> error + (outcome \<times> 'g frame)" where
  "run_finalize self fr =
     (let biclustering = Biclustering (biclusters_ref fr) in
      if return_layers self then
        (let layers1 = layers_val fr @ [arrays (heap fr) ! residuals_ref fr];
             st1 = list_append (heap fr) (biclusters biclustering)
                     (Bicluster (arange (num_rows fr)) (arange (num_cols fr)))
         in Inr (WithLayers biclustering layers1, fr\<lparr>heap := st1, layers_val := layers1\<rparr>))
      else if fit_background_layer self then
        (case list_pop0 (heap fr) (biclusters_ref fr) of
           Inl e \<Rightarrow> Inl e
         | Inr st1 \<Rightarrow>
             (case layers_val fr of
                [] \<Rightarrow> Inl IndexError
              | l # ls \<Rightarrow> Inr (Only biclustering, fr\<lparr>heap := st1, layers_val := ls\<rparr>)))
      else Inr (Only biclustering, fr))"

text \<open>
  \<^verbatim>\<open>Plaid.run\<close>; \<open>data\<close> is the address of the caller's matrix. The result comes with
  the frame at the return, whose store is the one the caller goes on with.
\<close>

definition run ::
  "'g primitives \<Rightarrow> plaid \<Rightarrow> store \<Rightarrow> nat \<Rightarrow> 'g \<Rightarrow> error + (outcome \<times> 'g frame)" where
  "run env self st data g =
     (case validate_parameters self of
        Inl e \<Rightarrow> Inl e
      | Inr u \<Rightarrow>
          (case run_background self (run_init st data g) of
             Inl e \<Rightarrow> Inl e
           | Inr fr1 \<Rightarrow>
               (case run_discover env self (nat (num_biclusters self)) fr1 of
                  Inl e \<Rightarrow> Inl e
                | Inr fr2 \<Rightarrow> run_finalize self fr2)))"

text \<open>The sequence of Bicluster a Biclustering holds in a store.\<close>

definition biclusters_of :: "store \<Rightarrow> biclustering \<Rightarrow> bicluster list" where
  "biclusters_of st b = lists st ! biclusters b"

text \<open>
  The two invariants of a frame: its two addresses name objects of the store, and the
  list of Bicluster is as long as the list of layers.
\<close>

definition valid_refs :: "'g frame \<Rightarrow> bool" where
  "valid_refs fr =
     (residuals_ref fr < length (arrays (heap fr)) \<and>
      biclusters_ref fr < length (lists (heap fr)))"

definition aligned :: "'g frame \<Rightarrow> bool" where
  "aligned fr = (length (lists (heap fr) ! biclusters_ref fr) = length (layers_val fr))"






subsection \<open>The trials of the significance test, one by one\<close>

text \<open>
  One trial as the specification describes it: the entries of the array are shuffled, a
  layer is fitted on the shuffled array, and its sum of squares is the score of the trial.
  The result is the shuffled array, the score and the new state of the random generator.
\<close>

definition trial ::
  "'g primitives \<Rightarrow> plaid \<Rightarrow> ndarray \<Rightarrow> 'g \<Rightarrow> error + (ndarray \<times> real \<times> 'g)" where
  "trial env self A g =
     (case shuffle_flat env A g of
        (A', g1) \<Rightarrow>
          (case fit_layer env self A' g1 of
             Inl e \<Rightarrow> Inl e
           | Inr (rows, cols, test_layer, g2) \<Rightarrow> Inr (A', np_sum (square test_layer), g2)))"

text \<open>
  The first \<open>k\<close> trials, every one of them run: the shuffled array and the score of each,
  and the state of the random generator after the last.
\<close>

fun trials ::
  "'g primitives \<Rightarrow> plaid \<Rightarrow> nat \<Rightarrow> ndarray \<Rightarrow> 'g \<Rightarrow> error + ((ndarray \<times> real) list \<times> 'g)" where
  "trials env self 0 A g = Inr ([], g)"
| "trials env self (Suc k) A g =
     (case trial env self A g of
        Inl e \<Rightarrow> Inl e
      | Inr (A', s, g1) \<Rightarrow>
          (case trials env self k A' g1 of
             Inl e \<Rightarrow> Inl e
           | Inr (ts, g2) \<Rightarrow> Inr ((A', s) # ts, g2)))"

subsection \<open>Example inputs\<close>

definition A22 :: ndarray where
  "A22 = \<lparr>shape0 = 2, shape1 = 2, entries = [[1, 0], [0, 1]]\<rparr>"


text \<open>
  Stand-ins for the external primitives: the random generator is a counter, the clustering
  puts the first vector alone in group 0, the shuffle moves the first entry to the end.
\<close>

definition toy_k_means :: "ndarray \<Rightarrow> nat \<Rightarrow> int \<Rightarrow> nat \<Rightarrow> error + (nat list \<times> nat)" where
  "toy_k_means X k n_init g = Inr (map (\<lambda>i. if i = 0 then 0 else 1) [0..<shape0 X], Suc g)"

definition toy_shuffle :: "real list \<Rightarrow> nat \<Rightarrow> real list \<times> nat" where
  "toy_shuffle xs g = (rotate1 xs, Suc g)"

definition toy :: "nat primitives" where
  "toy = \<lparr>k_means = toy_k_means, shuffle = toy_shuffle\<rparr>"

definition R22 :: ndarray where
  "R22 = \<lparr>shape0 = 2, shape1 = 2, entries = [[3, 1], [1, 2]]\<rparr>"

definition store0 :: store where
  "store0 = \<lparr>arrays = [R22], lists = []\<rparr>"

definition D22 :: ndarray where
  "D22 = \<lparr>shape0 = 2, shape1 = 2, entries = [[4, 1], [1, 0]]\<rparr>"

definition store1 :: store where
  "store1 = \<lparr>arrays = [D22], lists = []\<rparr>"

definition cfg1 :: plaid where
  "cfg1 = default_plaid\<lparr>num_biclusters := 1, significance_tests := 0,
            iterations_per_layer := 2\<rparr>"

definition cfg2 :: plaid where
  "cfg2 = cfg1\<lparr>return_layers := True\<rparr>"

definition L3 :: ndarray where
  "L3 = \<lparr>shape0 = 1, shape1 = 1, entries = [[3]]\<rparr>"

definition L1 :: ndarray where
  "L1 = \<lparr>shape0 = 1, shape1 = 1, entries = [[1]]\<rparr>"

section \<open>Properties\<close>

subsection \<open>Arrays\<close>

lemma shape_tabulate [simp]:
  "shape0 (tabulate n m f) = n" "shape1 (tabulate n m f) = m"
  by (simp_all add: tabulate_def)

lemma cell_tabulate [simp]: "i < n \<Longrightarrow> j < m \<Longrightarrow> cell (tabulate n m f) i j = f i j"
  by (simp add: tabulate_def cell_def)

lemma well_shaped_tabulate [simp]: "well_shaped (tabulate n m f)"
  by (simp add: well_shaped_def tabulate_def list_all_iff)

lemma sum_list_upt: "sum_list (map f [0..<n]) = (\<Sum>k<n. f k)"
  by (induction n) simp_all

lemma np_sum_axis1_tabulate:
  "np_sum_axis1 (tabulate n m f) = map (\<lambda>i. \<Sum>j<m. f i j) [0..<n]"
  by (simp add: np_sum_axis1_def tabulate_def sum_list_upt comp_def)






subsection \<open>The layer of a submatrix\<close>




subsection \<open>The pruning rule\<close>

lemma bc_id: "i < n \<Longrightarrow> bc n i = i"
  by (auto simp: bc_def)

lemma tabulate_cong:
  "(\<And>i j. i < n \<Longrightarrow> j < m \<Longrightarrow> f i j = g i j) \<Longrightarrow> tabulate n m f = tabulate n m g"
  by (simp add: tabulate_def)

lemma square_tabulate: "square (tabulate n m f) = tabulate n m (\<lambda>i j. f i j * f i j)"
  unfolding square_def shape_tabulate by (rule tabulate_cong) simp

lemma binop_same_shape:
  assumes "shape0 B = shape0 A" "shape1 B = shape1 A"
  shows "binop f A B = Inr (tabulate (shape0 A) (shape1 A) (\<lambda>i j. f (cell A i j) (cell B i j)))"
proof -
  have "tabulate (shape0 A) (shape1 A)
          (\<lambda>i j. f (cell A (bc (shape0 A) i) (bc (shape1 A) j))
                    (cell B (bc (shape0 A) i) (bc (shape1 A) j)))
        = tabulate (shape0 A) (shape1 A) (\<lambda>i j. f (cell A i j) (cell B i j))"
    by (rule tabulate_cong) (simp add: bc_id)
  then show ?thesis
    using assms by (simp add: binop_def broadcast_dim_def)
qed

lemma np_where_map_upt: "np_where (map P [0..<n]) = filter P [0..<n]"
  unfolding np_where_def by (rule filter_cong) simp_all

lemma prune_eq:
  assumes "list_all (\<lambda>i. i < shape0 R) rows" "list_all (\<lambda>j. j < shape1 R) cols"
    and "shape0 L = length rows" "shape1 L = length cols"
  shows "prune R L rows cols t =
    Inr (map (\<lambda>k. rows ! k)
          (filter (\<lambda>k. misfit R L rows cols k < (1 - t) * energy R rows cols k)
             [0..<length rows]))"
proof -
  let ?res = "tabulate (length rows) (length cols) (\<lambda>a b. cell R (rows ! a) (cols ! b))"
  have take: "take_sub R rows cols = Inr ?res"
    using assms(1,2) by (simp add: take_sub_def)
  have diff: "binop (-) ?res L =
      Inr (tabulate (length rows) (length cols)
             (\<lambda>i j. cell R (rows ! i) (cols ! j) - cell L i j))"
  proof -
    have "binop (-) ?res L =
      Inr (tabulate (length rows) (length cols) (\<lambda>i j. cell ?res i j - cell L i j))"
      using binop_same_shape [of L ?res "(-)"] assms(3,4) by simp
    also have "tabulate (length rows) (length cols) (\<lambda>i j. cell ?res i j - cell L i j)
        = tabulate (length rows) (length cols)
            (\<lambda>i j. cell R (rows ! i) (cols ! j) - cell L i j)"
      by (rule tabulate_cong) simp
    finally show ?thesis .
  qed
  let ?P = "\<lambda>k. misfit R L rows cols k < (1 - t) * energy R rows cols k"
  have mask: "less_bc (map (misfit R L rows cols) [0..<length rows])
                (map (\<lambda>r. (1 - t) * r) (map (energy R rows cols) [0..<length rows]))
              = Inr (map ?P [0..<length rows])"
    by (simp add: less_bc_def broadcast_dim_def bc_id)
  have sel: "index_by rows (filter ?P [0..<length rows])
              = Inr (map (\<lambda>k. rows ! k) (filter ?P [0..<length rows]))"
    by (simp add: index_by_def list_all_iff)
  have sums: "np_sum_axis1 (square (tabulate (length rows) (length cols)
                 (\<lambda>i j. cell R (rows ! i) (cols ! j) - cell L i j)))
               = map (misfit R L rows cols) [0..<length rows]"
    "np_sum_axis1 (square ?res) = map (energy R rows cols) [0..<length rows]"
    by (simp_all add: square_tabulate np_sum_axis1_tabulate misfit_def energy_def
        power2_eq_square)
  show ?thesis
    by (simp only: prune_def take diff Let_def sums mask sel np_where_map_upt sum.case)
qed






lemma filter_weaker:
  assumes "\<And>x. x \<in> set xs \<Longrightarrow> P x \<Longrightarrow> Q x"
  shows "filter P xs = filter P (filter Q xs)"
  using assms by (induction xs) auto

text \<open>
  Claim C5, as stated: raising the threshold never shrinks the selection. On the matrix
  \<open>A22\<close> with its own fitted layer both rows are kept at threshold 1/4 and none at 3/4.
\<close>

theorem prune_monotone_counterexample:
  "(1/4 :: real) \<le> 3/4 \<and>
   prune A22 (create_layer A22) [0, 1] [0, 1] (1/4) = Inr [0, 1] \<and>
   prune A22 (create_layer A22) [0, 1] [0, 1] (3/4) = Inr []"
  by code_simp

text \<open>
  Claim C5, amended: for the same residual, layer and index arrays, raising the threshold
  never enlarges the selection: every index kept at the higher threshold is kept at the
  lower one.
\<close>

theorem prune_antitone:
  assumes "list_all (\<lambda>i. i < shape0 residual) rows"
    and "list_all (\<lambda>j. j < shape1 residual) cols"
    and "shape0 layer = length rows" "shape1 layer = length cols"
    and "t1 \<le> t2"
  shows "\<exists>k1 k2. prune residual layer rows cols t1 = Inr k1 \<and>
           prune residual layer rows cols t2 = Inr k2 \<and>
           length k2 \<le> length k1 \<and> set k2 \<subseteq> set k1"
proof -
  let ?P = "\<lambda>t k. misfit residual layer rows cols k < (1 - t) * energy residual rows cols k"
  have nonneg: "0 \<le> energy residual rows cols k" for k
    by (simp add: energy_def sum_nonneg)
  have imp: "?P t2 k \<Longrightarrow> ?P t1 k" for k
  proof -
    assume a: "?P t2 k"
    have "(1 - t2) * energy residual rows cols k \<le> (1 - t1) * energy residual rows cols k"
      using assms(5) nonneg [of k] by (intro mult_right_mono) simp_all
    with a show "?P t1 k" by linarith
  qed
  have f: "filter (?P t2) [0..<length rows] = filter (?P t2) (filter (?P t1) [0..<length rows])"
    by (rule filter_weaker) (rule imp)
  have len: "length (filter (?P t2) [0..<length rows]) \<le> length (filter (?P t1) [0..<length rows])"
    by (subst f) (rule length_filter_le)
  have sub: "set (filter (?P t2) [0..<length rows]) \<subseteq> set (filter (?P t1) [0..<length rows])"
    using imp by auto
  show ?thesis
    unfolding prune_eq [OF assms(1-4)]
    using len sub by auto
qed

theorem prune_antitone_witness:
  "\<exists>k1 k2. prune A22 (create_layer A22) [0, 1] [0, 1] (1/4) = Inr k1 \<and>
           prune A22 (create_layer A22) [0, 1] [0, 1] (3/4) = Inr k2 \<and>
           length k2 \<le> length k1 \<and> set k2 \<subseteq> set k1"
proof -
  have 1: "list_all (\<lambda>i. i < shape0 A22) [0, 1]" by (simp add: A22_def)
  have 2: "list_all (\<lambda>j. j < shape1 A22) [0, 1]" by (simp add: A22_def)
  have 3: "shape0 (create_layer A22) = length [0::nat, 1]" by code_simp
  have 4: "shape1 (create_layer A22) = length [0::nat, 1]" by code_simp
  have 5: "(1/4 :: real) \<le> 3/4" by simp
  show ?thesis
    by (rule prune_antitone [OF 1 2 3 4 5])
qed

subsection \<open>One round of the fitting loop\<close>



subsection \<open>The significance test\<close>

lemma write_array_simps [simp]:
  "lists (write_array st a A) = lists st"
  "length (arrays (write_array st a A)) = length (arrays st)"
  "a < length (arrays st) \<Longrightarrow> arrays (write_array st a A) ! a = A"
  "b \<noteq> a \<Longrightarrow> arrays (write_array st a A) ! b = arrays st ! b"
  by (simp_all add: write_array_def)

lemma significance_trials_frame:
  "significance_trials env self n s c st g = Inr (b, st', g') \<Longrightarrow>
   lists st' = lists st \<and> length (arrays st') = length (arrays st) \<and>
   (\<forall>a. a \<noteq> c \<longrightarrow> arrays st' ! a = arrays st ! a)"
proof (induction n arbitrary: st g)
  case 0
  then show ?case by simp
next
  case (Suc n)
  obtain shuffled g1 where sf: "shuffle_flat env (arrays st ! c) g = (shuffled, g1)"
    by (cases "shuffle_flat env (arrays st ! c) g")
  let ?st1 = "write_array st c shuffled"
  from Suc.prems sf obtain rows cols L g2 where
    fl: "fit_layer env self (arrays ?st1 ! c) g1 = Inr (rows, cols, L, g2)"
    by (auto simp: Let_def split: sum.splits)
  show ?case
  proof (cases "s \<le> np_sum (square L)")
    case True
    with Suc.prems sf fl have "st' = ?st1" by (simp add: Let_def)
    then show ?thesis by simp
  next
    case False
    with Suc.prems sf fl
    have "significance_trials env self n s c ?st1 g2 = Inr (b, st', g')"
      by (simp add: Let_def)
    from Suc.IH [OF this] show ?thesis by simp
  qed
qed

lemma is_significant_store:
  assumes "is_significant env self st r layer g = Inr (b, st', g')"
  shows "lists st' = lists st \<and> length (arrays st') = Suc (length (arrays st)) \<and>
         (\<forall>a<length (arrays st). arrays st' ! a = arrays st ! a)"
proof -
  let ?c = "length (arrays st)"
  let ?st1 = "st\<lparr>arrays := arrays st @ [arrays st ! r]\<rparr>"
  have run: "significance_trials env self (nat (significance_tests self))
               (np_sum (square layer)) ?c ?st1 g = Inr (b, st', g')"
    using assms(1) by (simp add: is_significant_def np_copy_def Let_def)
  from significance_trials_frame [OF run]
  have l: "lists st' = lists st"
    and n: "length (arrays st') = Suc ?c"
    and u: "\<And>a. a \<noteq> ?c \<Longrightarrow> arrays st' ! a = (arrays st @ [arrays st ! r]) ! a"
    by simp_all
  have "arrays st' ! a = arrays st ! a" if "a < ?c" for a
    using u [of a] that by (simp add: nth_append)
  with l n show ?thesis by simp
qed

text \<open>
  Claim C10. When \<open>is_significant\<close> returns, accepting or rejecting, after any number
  of trials, the residual matrix it was given is as before the call: the trials shuffle one
  new array, the copy, and every array that existed before is unchanged.
\<close>

theorem is_significant_leaves_residuals:
  assumes "is_significant env self st residuals layer g = Inr (significant, st', g')"
    and "residuals < length (arrays st)"
  shows "arrays st' ! residuals = arrays st ! residuals \<and>
         length (arrays st') = Suc (length (arrays st)) \<and>
         take (length (arrays st)) (arrays st') = arrays st \<and>
         lists st' = lists st"
proof -
  note s = is_significant_store [OF assms(1)]
  then have "take (length (arrays st)) (arrays st') = arrays st"
    by (intro nth_equalityI) simp_all
  with s assms(2) show ?thesis by simp
qed

theorem is_significant_leaves_residuals_witness:
  "is_significant toy default_plaid store0 0 L3 0 =
     Inr (True, \<lparr>arrays = [R22, \<lparr>shape0 = 2, shape1 = 2, entries = [[2, 3], [1, 1]]\<rparr>],
                 lists = []\<rparr>, 9) \<and>
   arrays \<lparr>arrays = [R22, \<lparr>shape0 = 2, shape1 = 2, entries = [[2, 3], [1, 1]]\<rparr>],
           lists = []\<rparr> ! 0 = arrays store0 ! 0"
proof -
  have e: "is_significant toy default_plaid store0 0 L3 0 =
     Inr (True, \<lparr>arrays = [R22, \<lparr>shape0 = 2, shape1 = 2, entries = [[2, 3], [1, 1]]\<rparr>],
                 lists = []\<rparr>, 9)"
    by code_simp
  have a: "0 < length (arrays store0)" by (simp add: store0_def)
  show ?thesis
    using e is_significant_leaves_residuals [OF e a] by blast
qed

lemma significance_trials_sound:
  assumes "significance_trials env self n score c st g = Inr (b, st', g')"
    and "c < length (arrays st)"
  shows "\<exists>k ts. k \<le> n \<and> trials env self k (arrays st ! c) g = Inr (ts, g') \<and> length ts = k
      \<and> (\<forall>t\<in>set (butlast ts). snd t < score)
      \<and> (b \<longrightarrow> k = n \<and> (\<forall>t\<in>set ts. snd t < score))
      \<and> (\<not> b \<longrightarrow> ts \<noteq> [] \<and> score \<le> snd (last ts))"
  using assms
proof (induction n arbitrary: st g)
  case 0
  then have "b" "g' = g" by simp_all
  then have "0 \<le> (0::nat) \<and> trials env self 0 (arrays st ! c) g = Inr ([], g') \<and>
      length ([] :: (ndarray \<times> real) list) = 0" by simp
  with \<open>b\<close> show ?case by fastforce
next
  case (Suc n)
  obtain shuffled g1 where sf: "shuffle_flat env (arrays st ! c) g = (shuffled, g1)"
    by (cases "shuffle_flat env (arrays st ! c) g")
  let ?st1 = "write_array st c shuffled"
  have at_c: "arrays ?st1 ! c = shuffled"
    using Suc.prems(2) by simp
  from Suc.prems(1) sf obtain rows cols L g2 where
    fl: "fit_layer env self (arrays ?st1 ! c) g1 = Inr (rows, cols, L, g2)"
    by (auto simp: Let_def split: sum.splits)
  let ?s = "np_sum (square L)"
  have tr: "trial env self (arrays st ! c) g = Inr (shuffled, ?s, g2)"
    using sf fl at_c by (simp add: trial_def)
  show ?case
  proof (cases "score \<le> ?s")
    case True
    with Suc.prems(1) sf fl have res: "\<not> b" "g' = g2" by (simp_all add: Let_def)
    have t1: "trials env self (Suc 0) (arrays st ! c) g = Inr ([(shuffled, ?s)], g')"
      using tr res by simp
    show ?thesis
      apply (rule exI [of _ "Suc 0"])
      apply (rule exI [of _ "[(shuffled, ?s)]"])
      using t1 res True by simp
  next
    case False
    with Suc.prems(1) sf fl
    have rest: "significance_trials env self n score c ?st1 g2 = Inr (b, st', g')"
      by (simp add: Let_def)
    have "c < length (arrays ?st1)" using Suc.prems(2) by simp
    from Suc.IH [OF rest this] at_c obtain k ts where
      k: "k \<le> n" and t: "trials env self k shuffled g2 = Inr (ts, g')" and len: "length ts = k"
      and bl: "\<forall>t\<in>set (butlast ts). snd t < score"
      and acc: "b \<longrightarrow> k = n \<and> (\<forall>t\<in>set ts. snd t < score)"
      and rej: "\<not> b \<longrightarrow> ts \<noteq> [] \<and> score \<le> snd (last ts)"
      by auto
    have t1: "trials env self (Suc k) (arrays st ! c) g = Inr ((shuffled, ?s) # ts, g')"
      using tr t by simp
    have bl1: "\<forall>t\<in>set (butlast ((shuffled, ?s) # ts)). snd t < score"
      using bl False by (cases ts) auto
    show ?thesis
      apply (rule exI [of _ "Suc k"])
      apply (rule exI [of _ "(shuffled, ?s) # ts"])
      using k t1 len bl1 acc rej False by auto
  qed
qed

lemma length_concat_rows:
  "list_all (\<lambda>r. length r = m) xss \<Longrightarrow> length (concat xss) = length xss * m"
  by (induction xss) simp_all

lemma concat_chunks:
  "n * m \<le> length xs \<Longrightarrow>
   concat (map (\<lambda>i. map (\<lambda>j. xs ! (i * m + j)) [0..<m]) [0..<n]) = take (n * m) xs"
proof (induction n)
  case 0
  then show ?case by simp
next
  case (Suc n)
  have chunk: "map (\<lambda>j. xs ! (n * m + j)) [0..<m] = take m (drop (n * m) xs)"
    using Suc.prems by (intro nth_equalityI) simp_all
  have "Suc n * m = n * m + m" by simp
  then have "take (Suc n * m) xs = take (n * m) xs @ take m (drop (n * m) xs)"
    by (simp only: take_add)
  with Suc chunk show ?case by simp
qed

lemma concat_reshape: "length xs = n * m \<Longrightarrow> concat (entries (reshape n m xs)) = xs"
  using concat_chunks [of n m xs] by (simp add: reshape_def tabulate_def)

lemma shuffle_flat_permutes:
  assumes "\<forall>xs g. mset (fst (shuffle env xs g)) = mset xs"
    and "well_shaped A" "shuffle_flat env A g = (A', g1)"
  shows "well_shaped A' \<and> shape0 A' = shape0 A \<and> shape1 A' = shape1 A \<and>
         mset (concat (entries A')) = mset (concat (entries A))"
proof -
  let ?xs = "fst (shuffle env (concat (entries A)) g)"
  have A': "A' = reshape (shape0 A) (shape1 A) ?xs"
    using assms(3) by (simp add: shuffle_flat_def split: prod.splits)
  have m: "mset ?xs = mset (concat (entries A))"
    using assms(1) by simp
  have "length (concat (entries A)) = shape0 A * shape1 A"
    using assms(2) length_concat_rows [of "shape1 A" "entries A"] by (simp add: well_shaped_def)
  with m have "length ?xs = shape0 A * shape1 A"
    by (metis size_mset)
  then have "concat (entries A') = ?xs"
    unfolding A' by (rule concat_reshape)
  with m show ?thesis by (simp add: A' reshape_def)
qed

lemma trials_permute:
  assumes "\<forall>xs g. mset (fst (shuffle env xs g)) = mset xs"
  shows "well_shaped A \<Longrightarrow> trials env self k A g = Inr (ts, g') \<Longrightarrow>
     \<forall>t\<in>set ts. shape0 (fst t) = shape0 A \<and> shape1 (fst t) = shape1 A \<and>
                 mset (concat (entries (fst t))) = mset (concat (entries A))"
proof (induction k arbitrary: A g ts)
  case 0
  then show ?case by simp
next
  case (Suc k)
  from Suc.prems(2) obtain A' s g1 ts' where
    tr: "trial env self A g = Inr (A', s, g1)"
    and rest: "trials env self k A' g1 = Inr (ts', g')"
    and ts: "ts = (A', s) # ts'"
    by (auto split: sum.splits)
  from tr obtain g0 where "shuffle_flat env A g = (A', g0)"
    by (auto simp: trial_def split: prod.splits sum.splits)
  from shuffle_flat_permutes [OF assms Suc.prems(1) this]
  have A': "well_shaped A'" "shape0 A' = shape0 A" "shape1 A' = shape1 A"
    "mset (concat (entries A')) = mset (concat (entries A))"
    by simp_all
  from Suc.IH [OF A'(1) rest] A' ts show ?case by simp
qed

text \<open>
  Claim C2. When \<open>is_significant\<close> returns, it has run exactly the first \<open>k\<close> trials,
  for some \<open>k\<close> up to \<open>significance_tests\<close> (the random generator is in the state
  after these \<open>k\<close> trials); each of them fitted a layer on an array of the shape of the
  residual matrix whose entries are a permutation of its entries, provided the shuffle
  primitive permutes; every trial before the last one scored strictly below the sum of
  squares of the candidate layer; the answer is "significant" only if all
  \<open>significance_tests\<close> trials were run and all scored strictly below, and "not
  significant" only if the last trial run scored at least the candidate's sum of squares;
  with \<open>significance_tests = 0\<close> the answer is "significant".
\<close>

theorem is_significant_trials:
  assumes "is_significant env self st residuals layer g = Inr (significant, st', g')"
    and "\<forall>xs g. mset (fst (shuffle env xs g)) = mset xs"
    and "well_shaped (arrays st ! residuals)"
  shows "\<exists>k ts. k \<le> nat (significance_tests self) \<and>
      trials env self k (arrays st ! residuals) g = Inr (ts, g') \<and> length ts = k \<and>
      (\<forall>t\<in>set ts. shape0 (fst t) = shape0 (arrays st ! residuals) \<and>
                  shape1 (fst t) = shape1 (arrays st ! residuals) \<and>
                  mset (concat (entries (fst t))) = mset (concat (entries (arrays st ! residuals)))) \<and>
      (\<forall>t\<in>set (butlast ts). snd t < np_sum (square layer)) \<and>
      (significant \<longrightarrow> k = nat (significance_tests self) \<and>
                        (\<forall>t\<in>set ts. snd t < np_sum (square layer))) \<and>
      (\<not> significant \<longrightarrow> ts \<noteq> [] \<and> np_sum (square layer) \<le> snd (last ts)) \<and>
      (significance_tests self = 0 \<longrightarrow> significant)"
proof -
  let ?c = "length (arrays st)"
  let ?st1 = "st\<lparr>arrays := arrays st @ [arrays st ! residuals]\<rparr>"
  let ?R = "arrays st ! residuals"
  have run: "significance_trials env self (nat (significance_tests self))
               (np_sum (square layer)) ?c ?st1 g = Inr (significant, st', g')"
    using assms(1) by (simp add: is_significant_def np_copy_def Let_def)
  have c: "?c < length (arrays ?st1)" "arrays ?st1 ! ?c = ?R" by simp_all
  from significance_trials_sound [OF run c(1)] c(2) obtain k ts where
    k: "k \<le> nat (significance_tests self)"
    and t: "trials env self k ?R g = Inr (ts, g')" and len: "length ts = k"
    and bl: "\<forall>t\<in>set (butlast ts). snd t < np_sum (square layer)"
    and acc: "significant \<longrightarrow> k = nat (significance_tests self) \<and>
                (\<forall>t\<in>set ts. snd t < np_sum (square layer))"
    and rej: "\<not> significant \<longrightarrow> ts \<noteq> [] \<and> np_sum (square layer) \<le> snd (last ts)"
    by auto
  note perm = trials_permute [OF assms(2,3) t]
  have zero: "significance_tests self = 0 \<longrightarrow> significant"
    using k len rej by auto
  show ?thesis
    apply (rule exI [of _ k])
    apply (rule exI [of _ ts])
    using k t len perm bl acc rej zero by blast
qed

theorem is_significant_trials_witness:
  "is_significant toy default_plaid store0 0 L1 0 =
     Inr (False, \<lparr>arrays = [R22, \<lparr>shape0 = 2, shape1 = 2, entries = [[1, 1], [2, 3]]\<rparr>],
                  lists = []\<rparr>, 3) \<and>
   (\<exists>k ts. k \<le> nat (significance_tests default_plaid) \<and>
      trials toy default_plaid k (arrays store0 ! 0) 0 = Inr (ts, 3) \<and> length ts = k \<and>
      ts \<noteq> [] \<and> np_sum (square L1) \<le> snd (last ts))"
proof -
  have e: "is_significant toy default_plaid store0 0 L1 0 =
     Inr (False, \<lparr>arrays = [R22, \<lparr>shape0 = 2, shape1 = 2, entries = [[1, 1], [2, 3]]\<rparr>],
                  lists = []\<rparr>, 3)"
    by code_simp
  have "mset (rotate1 xs) = mset xs" for xs :: "real list"
    by (cases xs) simp_all
  then have p: "\<forall>xs g. mset (fst (shuffle toy xs g)) = mset xs"
    by (simp add: toy_def toy_shuffle_def)
  have w: "well_shaped (arrays store0 ! 0)"
    by (simp add: store0_def R22_def well_shaped_def)
  show ?thesis
    using e is_significant_trials [OF e p w] by blast
qed

subsection \<open>The store through back fitting and through the run\<close>

lemma set_cell_shape [simp]:
  "shape0 (set_cell A i j v) = shape0 A" "shape1 (set_cell A i j v) = shape1 A"
  by (simp_all add: set_cell_def)

lemma fold_set_cell_shape:
  "shape0 (fold (\<lambda>(a, b) M. set_cell M (f a) (h b) (w a b)) ps A) = shape0 A \<and>
   shape1 (fold (\<lambda>(a, b) M. set_cell M (f a) (h b) (w a b)) ps A) = shape1 A"
  by (induction ps arbitrary: A) (simp_all add: case_prod_beta)

lemma put_sub_shape [simp]:
  "shape0 (put_sub A rows cols V) = shape0 A" "shape1 (put_sub A rows cols V) = shape1 A"
  unfolding put_sub_def using fold_set_cell_shape [of "\<lambda>a. rows ! a" "\<lambda>b. cols ! b" "cell V"]
  by simp_all


lemma inplace_sub_shape:
  "inplace_sub f A rows cols B = Inr C \<Longrightarrow> shape0 C = shape0 A \<and> shape1 C = shape1 A"
  by (auto simp: inplace_sub_def split: sum.splits)

lemma take_sub_shape:
  "take_sub A rows cols = Inr S \<Longrightarrow> shape0 S = length rows \<and> shape1 S = length cols"
  by (auto simp: take_sub_def split: if_splits)


lemma back_fitting_pass_frame:
  "back_fitting_pass ps st r layers = Inr (st', layers') \<Longrightarrow> r < length (arrays st) \<Longrightarrow>
   lists st' = lists st \<and> length (arrays st') = length (arrays st) \<and>
   (\<forall>a. a \<noteq> r \<longrightarrow> arrays st' ! a = arrays st ! a) \<and>
   length layers' = length layers \<and>
   shape0 (arrays st' ! r) = shape0 (arrays st ! r) \<and>
   shape1 (arrays st' ! r) = shape1 (arrays st ! r)"
proof (induction ps arbitrary: st layers)
  case Nil
  then show ?case by simp
next
  case (Cons p ps)
  obtain j b where p: "p = (j, b)" by (cases p)
  from Cons.prems(1) p obtain R1 where
    r1: "inplace_sub (+) (arrays st ! r) (brows b) (bcols b) (layers ! j) = Inr R1"
    by (auto split: sum.splits)
  let ?st1 = "write_array st r R1"
  from Cons.prems(1) p r1 obtain sub where
    sub: "take_sub (arrays ?st1 ! r) (brows b) (bcols b) = Inr sub"
    by (auto simp: Let_def split: sum.splits)
  let ?layers1 = "layers[j := create_layer sub]"
  from Cons.prems(1) p r1 sub obtain R2 where
    r2: "inplace_sub (-) (arrays ?st1 ! r) (brows b) (bcols b) (?layers1 ! j) = Inr R2"
    by (auto simp: Let_def split: sum.splits)
  let ?st2 = "write_array ?st1 r R2"
  from Cons.prems(1) p r1 sub r2
  have rest: "back_fitting_pass ps ?st2 r ?layers1 = Inr (st', layers')"
    by (simp add: Let_def)
  have len: "r < length (arrays ?st2)" using Cons.prems(2) by simp
  have s1: "shape0 R1 = shape0 (arrays st ! r)" "shape1 R1 = shape1 (arrays st ! r)"
    using inplace_sub_shape [OF r1] by simp_all
  have s2: "shape0 R2 = shape0 R1" "shape1 R2 = shape1 R1"
    using inplace_sub_shape [OF r2] Cons.prems(2) by simp_all
  from Cons.IH [OF rest len] s1 s2 Cons.prems(2) show ?case by simp
qed

lemma back_fitting_steps_loop_frame:
  "back_fitting_steps_loop n st r layers bref = Inr (st', layers') \<Longrightarrow>
   r < length (arrays st) \<Longrightarrow>
   lists st' = lists st \<and> length (arrays st') = length (arrays st) \<and>
   (\<forall>a. a \<noteq> r \<longrightarrow> arrays st' ! a = arrays st ! a) \<and>
   length layers' = length layers \<and>
   shape0 (arrays st' ! r) = shape0 (arrays st ! r) \<and>
   shape1 (arrays st' ! r) = shape1 (arrays st ! r)"
proof (induction n arbitrary: st layers)
  case 0
  then show ?case by simp
next
  case (Suc n)
  from Suc.prems(1) obtain st1 layers1 where
    p: "back_fitting_pass (zip [0..<length layers] (lists st ! bref)) st r layers
          = Inr (st1, layers1)"
    and rest: "back_fitting_steps_loop n st1 r layers1 bref = Inr (st', layers')"
    by (auto split: sum.splits)
  note f = back_fitting_pass_frame [OF p Suc.prems(2)]
  then have "r < length (arrays st1)" using Suc.prems(2) by simp
  from Suc.IH [OF rest this] f show ?case by simp
qed

lemma back_fitting_frame:
  "back_fitting self st r layers bref = Inr (st', layers') \<Longrightarrow>
   r < length (arrays st) \<Longrightarrow>
   lists st' = lists st \<and> length (arrays st') = length (arrays st) \<and>
   (\<forall>a. a \<noteq> r \<longrightarrow> arrays st' ! a = arrays st ! a) \<and>
   length layers' = length layers \<and>
   shape0 (arrays st' ! r) = shape0 (arrays st ! r) \<and>
   shape1 (arrays st' ! r) = shape1 (arrays st ! r)"
  unfolding back_fitting_def by (rule back_fitting_steps_loop_frame)

lemma list_append_simps [simp]:
  "arrays (list_append st l b) = arrays st"
  "length (lists (list_append st l b)) = length (lists st)"
  "l < length (lists st) \<Longrightarrow> lists (list_append st l b) ! l = lists st ! l @ [b]"
  by (simp_all add: list_append_def)

lemma write_array_arrays_length [simp]:
  "length (lists (write_array st a A)) = length (lists st)"
  by (simp add: write_array_def)

lemma run_iteration_cases:
  assumes "run_iteration env self fr = Inr (go, fr')"
  obtains
    (empty) rows cols L g1 where
      "fit_layer env self (arrays (heap fr) ! residuals_ref fr) (rng fr) = Inr (rows, cols, L, g1)"
      "length rows = 0 \<or> length cols = 0" "\<not> go" "fr' = fr\<lparr>rng := g1\<rparr>"
  | (rejected) rows cols L g1 st1 g2 where
      "fit_layer env self (arrays (heap fr) ! residuals_ref fr) (rng fr) = Inr (rows, cols, L, g1)"
      "is_significant env self (heap fr) (residuals_ref fr) L g1 = Inr (False, st1, g2)"
      "\<not> go" "fr' = fr\<lparr>heap := st1, rng := g2\<rparr>"
  | (accepted) rows cols L g1 st1 g2 R st4 layers2 where
      "fit_layer env self (arrays (heap fr) ! residuals_ref fr) (rng fr) = Inr (rows, cols, L, g1)"
      "length rows \<noteq> 0" "length cols \<noteq> 0"
      "is_significant env self (heap fr) (residuals_ref fr) L g1 = Inr (True, st1, g2)"
      "inplace_sub (-) (arrays st1 ! residuals_ref fr) rows cols L = Inr R"
      "back_fitting self
         (list_append (write_array st1 (residuals_ref fr) R) (biclusters_ref fr)
            (Bicluster rows cols))
         (residuals_ref fr) (layers_val fr @ [L]) (biclusters_ref fr) = Inr (st4, layers2)"
      "go" "fr' = fr\<lparr>heap := st4, layers_val := layers2, rng := g2\<rparr>"
proof -
  from assms obtain rows cols L g1 where
    fl: "fit_layer env self (arrays (heap fr) ! residuals_ref fr) (rng fr) = Inr (rows, cols, L, g1)"
    by (auto simp: run_iteration_def split: sum.splits)
  show thesis
  proof (cases "length rows = 0 \<or> length cols = 0")
    case True
    with assms fl have "\<not> go" "fr' = fr\<lparr>rng := g1\<rparr>"
      by (auto simp: run_iteration_def)
    with fl True show thesis by (rule empty)
  next
    case False
    with assms fl obtain sg st1 g2 where
      sig: "is_significant env self (heap fr) (residuals_ref fr) L g1 = Inr (sg, st1, g2)"
      by (auto simp: run_iteration_def split: sum.splits)
    show thesis
    proof (cases sg)
      case False
      with assms fl \<open>\<not> (length rows = 0 \<or> length cols = 0)\<close> sig
      have "\<not> go" "fr' = fr\<lparr>heap := st1, rng := g2\<rparr>"
        by (auto simp: run_iteration_def)
      with fl sig False show thesis by (auto intro: rejected)
    next
      case True
      note nonempty = \<open>\<not> (length rows = 0 \<or> length cols = 0)\<close>
      from assms fl nonempty sig True obtain R where
        r: "inplace_sub (-) (arrays st1 ! residuals_ref fr) rows cols L = Inr R"
        by (auto simp: run_iteration_def split: sum.splits)
      from assms fl nonempty sig True r obtain st4 layers2 where
        bf: "back_fitting self
         (list_append (write_array st1 (residuals_ref fr) R) (biclusters_ref fr)
            (Bicluster rows cols))
         (residuals_ref fr) (layers_val fr @ [L]) (biclusters_ref fr) = Inr (st4, layers2)"
        by (auto simp: run_iteration_def Let_def split: sum.splits)
      from assms fl nonempty sig True r bf
      have "go" "fr' = fr\<lparr>heap := st4, layers_val := layers2, rng := g2\<rparr>"
        by (auto simp: run_iteration_def Let_def)
      with fl nonempty sig True r bf show thesis by (auto intro: accepted)
    qed
  qed
qed

lemma run_iteration_refs:
  assumes "run_iteration env self fr = Inr (go, fr')"
  shows "residuals_ref fr' = residuals_ref fr \<and> biclusters_ref fr' = biclusters_ref fr \<and>
         num_rows fr' = num_rows fr \<and> num_cols fr' = num_cols fr"
  using assms by (cases rule: run_iteration_cases) simp_all

lemma run_iteration_store:
  assumes "run_iteration env self fr = Inr (go, fr')" "valid_refs fr"
  shows "length (arrays (heap fr)) \<le> length (arrays (heap fr')) \<and>
         length (lists (heap fr')) = length (lists (heap fr)) \<and>
         (\<forall>a<length (arrays (heap fr)). a \<noteq> residuals_ref fr \<longrightarrow>
            arrays (heap fr') ! a = arrays (heap fr) ! a) \<and>
         shape0 (arrays (heap fr') ! residuals_ref fr)
           = shape0 (arrays (heap fr) ! residuals_ref fr) \<and>
         shape1 (arrays (heap fr') ! residuals_ref fr)
           = shape1 (arrays (heap fr) ! residuals_ref fr)"
  using assms(1)
proof (cases rule: run_iteration_cases)
  case (empty rows cols L g1)
  then show ?thesis by simp
next
  case (rejected rows cols L g1 st1 g2)
  from is_significant_store [OF rejected(2)] rejected(4) assms(2)
  show ?thesis by (simp add: valid_refs_def)
next
  case (accepted rows cols L g1 st1 g2 R st4 layers2)
  let ?r = "residuals_ref fr"
  note sg = is_significant_store [OF accepted(4)]
  have r: "?r < length (arrays (heap fr))" using assms(2) by (simp add: valid_refs_def)
  let ?st3 = "list_append (write_array st1 ?r R) (biclusters_ref fr) (Bicluster rows cols)"
  have r3: "?r < length (arrays ?st3)" using sg r by simp
  note bf = back_fitting_frame [OF accepted(6) r3]
  have sh: "shape0 R = shape0 (arrays (heap fr) ! ?r)" "shape1 R = shape1 (arrays (heap fr) ! ?r)"
    using inplace_sub_shape [OF accepted(5)] sg r by simp_all
  have at_r: "arrays ?st3 ! ?r = R" using sg r by simp
  from bf sg r sh at_r accepted(8) show ?thesis by simp
qed

lemma run_iteration_valid:
  assumes "run_iteration env self fr = Inr (go, fr')" "valid_refs fr"
  shows "valid_refs fr'"
  using run_iteration_store [OF assms] run_iteration_refs [OF assms(1)] assms(2)
  by (simp add: valid_refs_def)

lemma run_iteration_lists:
  assumes "run_iteration env self fr = Inr (go, fr')" "valid_refs fr"
  shows "(\<not> go \<and> lists (heap fr') = lists (heap fr) \<and> layers_val fr' = layers_val fr) \<or>
         (\<exists>rows cols L g1.
            fit_layer env self (arrays (heap fr) ! residuals_ref fr) (rng fr)
              = Inr (rows, cols, L, g1) \<and>
            lists (heap fr') ! biclusters_ref fr
              = lists (heap fr) ! biclusters_ref fr @ [Bicluster rows cols] \<and>
            length (layers_val fr') = Suc (length (layers_val fr)))"
  using assms(1)
proof (cases rule: run_iteration_cases)
  case (empty rows cols L g1)
  then show ?thesis by simp
next
  case (rejected rows cols L g1 st1 g2)
  from is_significant_store [OF rejected(2)] rejected(3,4)
  show ?thesis by simp
next
  case (accepted rows cols L g1 st1 g2 R st4 layers2)
  let ?r = "residuals_ref fr"
  let ?l = "biclusters_ref fr"
  note sg = is_significant_store [OF accepted(4)]
  have r: "?r < length (arrays (heap fr))" and l: "?l < length (lists (heap fr))"
    using assms(2) by (simp_all add: valid_refs_def)
  let ?st3 = "list_append (write_array st1 ?r R) ?l (Bicluster rows cols)"
  have r3: "?r < length (arrays ?st3)" using sg r by simp
  note bf = back_fitting_frame [OF accepted(6) r3]
  have "lists st4 ! ?l = lists (heap fr) ! ?l @ [Bicluster rows cols]"
    using bf sg l by simp
  moreover have "length layers2 = Suc (length (layers_val fr))"
    using bf by simp
  ultimately show ?thesis using accepted(1,8) by auto
qed

lemma run_iteration_aligned:
  assumes "run_iteration env self fr = Inr (go, fr')" "valid_refs fr" "aligned fr"
  shows "aligned fr'"
  using run_iteration_lists [OF assms(1,2)] run_iteration_refs [OF assms(1)] assms(3)
  by (auto simp: aligned_def)

lemma run_discover_refs:
  "run_discover env self n fr = Inr fr' \<Longrightarrow>
   residuals_ref fr' = residuals_ref fr \<and> biclusters_ref fr' = biclusters_ref fr \<and>
   num_rows fr' = num_rows fr \<and> num_cols fr' = num_cols fr"
proof (induction n arbitrary: fr)
  case 0
  then show ?case by simp
next
  case (Suc n)
  from Suc.prems obtain go fr1 where
    it: "run_iteration env self fr = Inr (go, fr1)"
    and rest: "if go then run_discover env self n fr1 = Inr fr' else fr' = fr1"
    by (auto split: sum.splits if_splits)
  show ?case
    using run_iteration_refs [OF it] rest Suc.IH [of fr1] by (cases go) simp_all
qed

lemma run_discover_inv:
  "run_discover env self n fr = Inr fr' \<Longrightarrow> valid_refs fr \<Longrightarrow> aligned fr \<Longrightarrow>
   valid_refs fr' \<and> aligned fr' \<and>
   length (arrays (heap fr)) \<le> length (arrays (heap fr')) \<and>
   (\<forall>a<length (arrays (heap fr)). a \<noteq> residuals_ref fr \<longrightarrow>
      arrays (heap fr') ! a = arrays (heap fr) ! a)"
proof (induction n arbitrary: fr)
  case 0
  then show ?case by simp
next
  case (Suc n)
  from Suc.prems(1) obtain go fr1 where
    it: "run_iteration env self fr = Inr (go, fr1)"
    and rest: "if go then run_discover env self n fr1 = Inr fr' else fr' = fr1"
    by (auto split: sum.splits if_splits)
  note v1 = run_iteration_valid [OF it Suc.prems(2)]
  note a1 = run_iteration_aligned [OF it Suc.prems(2,3)]
  note s1 = run_iteration_store [OF it Suc.prems(2)]
  note r1 = run_iteration_refs [OF it]
  show ?case
  proof (cases go)
    case False
    with rest v1 a1 s1 show ?thesis by simp
  next
    case True
    with rest have "run_discover env self n fr1 = Inr fr'" by simp
    from Suc.IH [OF this v1 a1] s1 r1 show ?thesis by auto
  qed
qed

lemma run_init_props:
  "valid_refs (run_init st data g) \<and> aligned (run_init st data g) \<and>
   residuals_ref (run_init st data g) = length (arrays st) \<and>
   arrays (heap (run_init st data g)) = arrays st @ [arrays st ! data] \<and>
   lists (heap (run_init st data g)) = lists st @ [[]] \<and>
   biclusters_ref (run_init st data g) = length (lists st) \<and>
   layers_val (run_init st data g) = [] \<and>
   num_rows (run_init st data g) = shape0 (arrays st ! data) \<and>
   num_cols (run_init st data g) = shape1 (arrays st ! data)"
  by (simp add: run_init_def np_copy_def new_list_def valid_refs_def aligned_def)

lemma run_background_props:
  assumes "run_background self fr = Inr fr'" "valid_refs fr"
  shows "valid_refs fr' \<and> (aligned fr \<longrightarrow> aligned fr') \<and>
         residuals_ref fr' = residuals_ref fr \<and> biclusters_ref fr' = biclusters_ref fr \<and>
         num_rows fr' = num_rows fr \<and> num_cols fr' = num_cols fr \<and>
         length (arrays (heap fr')) = length (arrays (heap fr)) \<and>
         (\<forall>a. a \<noteq> residuals_ref fr \<longrightarrow> arrays (heap fr') ! a = arrays (heap fr) ! a)"
proof (cases "fit_background_layer self")
  case False
  with assms show ?thesis by (simp add: run_background_def)
next
  case True
  with assms(1) obtain R where
    r: "inplace (-) (arrays (heap fr) ! residuals_ref fr)
          (create_layer (arrays (heap fr) ! residuals_ref fr)) = Inr R"
    by (auto simp: run_background_def Let_def split: sum.splits)
  with assms(1) True
  have fr': "fr' = fr\<lparr>heap := list_append (write_array (heap fr) (residuals_ref fr) R)
                              (biclusters_ref fr)
                              (Bicluster (arange (num_rows fr)) (arange (num_cols fr))),
                      layers_val := layers_val fr
                         @ [create_layer (arrays (heap fr) ! residuals_ref fr)]\<rparr>"
    by (simp add: run_background_def Let_def)
  show ?thesis
    using assms(2) unfolding fr' by (simp add: valid_refs_def aligned_def)
qed

lemma list_pop0_props:
  "list_pop0 st l = Inr st' \<Longrightarrow> l < length (lists st) \<Longrightarrow>
   arrays st' = arrays st \<and> lists st' ! l = tl (lists st ! l) \<and> lists st ! l \<noteq> [] \<and>
   length (lists st') = length (lists st)"
  by (auto simp: list_pop0_def split: list.splits)

lemma run_finalize_props:
  assumes "run_finalize self fr = Inr (out, fr')" "valid_refs fr"
  shows "arrays (heap fr') = arrays (heap fr) \<and>
         residuals_ref fr' = residuals_ref fr \<and> biclusters_ref fr' = biclusters_ref fr \<and>
         num_rows fr' = num_rows fr \<and> num_cols fr' = num_cols fr \<and>
         (aligned fr \<longrightarrow> aligned fr') \<and>
         (case out of
            Only b \<Rightarrow> biclusters b = biclusters_ref fr \<and> \<not> return_layers self
          | WithLayers b ls \<Rightarrow> biclusters b = biclusters_ref fr \<and> ls = layers_val fr' \<and>
                                return_layers self)"
proof (cases "return_layers self")
  case True
  with assms show ?thesis
    by (auto simp: run_finalize_def Let_def aligned_def valid_refs_def)
next
  case False
  show ?thesis
  proof (cases "fit_background_layer self")
    case False
    with assms \<open>\<not> return_layers self\<close> show ?thesis
      by (auto simp: run_finalize_def Let_def)
  next
    case True
    with assms(1) \<open>\<not> return_layers self\<close> obtain st1 l ls where
      p: "list_pop0 (heap fr) (biclusters_ref fr) = Inr st1" and ly: "layers_val fr = l # ls"
      and res: "out = Only (Biclustering (biclusters_ref fr))"
        "fr' = fr\<lparr>heap := st1, layers_val := ls\<rparr>"
      by (auto simp: run_finalize_def Let_def split: sum.splits list.splits)
    from list_pop0_props [OF p] assms(2) ly res \<open>\<not> return_layers self\<close>
    show ?thesis by (auto simp: aligned_def valid_refs_def)
  qed
qed

lemma run_phases:
  assumes "run env self st data g = Inr (out, fr)"
  obtains fr1 fr2 where
    "validate_parameters self = Inr ()"
    "run_background self (run_init st data g) = Inr fr1"
    "run_discover env self (nat (num_biclusters self)) fr1 = Inr fr2"
    "run_finalize self fr2 = Inr (out, fr)"
  using assms by (auto simp: run_def split: sum.splits)

text \<open>
  Claim C9. When \<open>run\<close> returns, the residual matrix it worked on is the array
  allocated by the copy at its start, at an address that did not exist before, and every
  array that existed before the call, the caller's matrix among them, is unchanged.
\<close>

theorem run_leaves_input:
  assumes "run env self st data g = Inr (out, fr)" "data < length (arrays st)"
  shows "arrays (heap fr) ! data = arrays st ! data \<and>
         residuals_ref fr = length (arrays st) \<and>
         take (length (arrays st)) (arrays (heap fr)) = arrays st"
proof -
  let ?n = "length (arrays st)"
  let ?fr0 = "run_init st data g"
  from assms(1) obtain fr1 fr2 where
    bg: "run_background self ?fr0 = Inr fr1"
    and dc: "run_discover env self (nat (num_biclusters self)) fr1 = Inr fr2"
    and fin: "run_finalize self fr2 = Inr (out, fr)"
    by (rule run_phases)
  note i = run_init_props [of st data g]
  from i have v0: "valid_refs ?fr0" and a0: "aligned ?fr0" by simp_all
  note b = run_background_props [OF bg v0]
  from b a0 have v1: "valid_refs fr1" and a1: "aligned fr1" by simp_all
  note d = run_discover_inv [OF dc v1 a1]
  note dr = run_discover_refs [OF dc]
  from d have v2: "valid_refs fr2" by simp
  note f = run_finalize_props [OF fin v2]
  have r1: "residuals_ref fr1 = ?n" using b i by simp
  have old1: "arrays (heap fr1) ! a = arrays st ! a" if "a < ?n" for a
    using b i that by (simp add: nth_append)
  have len1: "length (arrays (heap fr1)) = Suc ?n" using b i by simp
  have old2: "arrays (heap fr2) ! a = arrays st ! a" if "a < ?n" for a
    using d r1 len1 old1 that by simp
  have len2: "?n \<le> length (arrays (heap fr2))" using d len1 by simp
  have old: "arrays (heap fr) ! a = arrays st ! a" if "a < ?n" for a
    using f old2 that by simp
  have "take ?n (arrays (heap fr)) = arrays st"
    using len2 f old by (intro nth_equalityI) simp_all
  moreover have "residuals_ref fr = ?n" using f dr r1 by simp
  ultimately show ?thesis using old [OF assms(2)] by simp
qed

theorem run_leaves_input_witness:
  "\<exists>out fr. run toy cfg1 store1 0 0 = Inr (out, fr) \<and>
     arrays (heap fr) ! 0 = arrays store1 ! 0 \<and>
     residuals_ref fr = length (arrays store1) \<and>
     take (length (arrays store1)) (arrays (heap fr)) = arrays store1"
proof -
  have "\<not> isl (run toy cfg1 store1 0 0)" by code_simp
  then obtain out fr where e: "run toy cfg1 store1 0 0 = Inr (out, fr)"
    by (cases "run toy cfg1 store1 0 0") auto
  have a: "0 < length (arrays store1)" by (simp add: store1_def)
  show ?thesis
    using e run_leaves_input [OF e a] by blast
qed

text \<open>
  Claim C8. The list of Bicluster and the list of layers have the same length after the
  initialization; the background step, every iteration of the discovery loop (with its
  two appends and its back fitting) and the finalization in either output mode keep them
  so; hence they have the same length when \<open>run\<close> returns, and the returned
  Biclustering is as long as the layers (the returned ones in layers mode).
\<close>

theorem alignment_invariant:
  "(valid_refs (run_init st data (g :: 'g)) \<and> aligned (run_init st data g)) \<and>
   (\<forall>(fr :: 'g frame) fr'. valid_refs fr \<and> aligned fr \<and> run_background self fr = Inr fr'
      \<longrightarrow> valid_refs fr' \<and> aligned fr') \<and>
   (\<forall>fr go fr'. valid_refs fr \<and> aligned fr \<and> run_iteration env self fr = Inr (go, fr')
      \<longrightarrow> valid_refs fr' \<and> aligned fr') \<and>
   (\<forall>(fr :: 'g frame) out fr'. valid_refs fr \<and> aligned fr \<and> run_finalize self fr = Inr (out, fr')
      \<longrightarrow> aligned fr' \<and>
          (case out of
             Only b \<Rightarrow> length (biclusters_of (heap fr') b) = length (layers_val fr')
           | WithLayers b ls \<Rightarrow> length (biclusters_of (heap fr') b) = length ls)) \<and>
   (\<forall>out fr. run env self st data g = Inr (out, fr)
      \<longrightarrow> aligned fr \<and>
          (case out of
             Only b \<Rightarrow> length (biclusters_of (heap fr) b) = length (layers_val fr)
           | WithLayers b ls \<Rightarrow> length (biclusters_of (heap fr) b) = length ls))"
proof -
  have init: "valid_refs (run_init st data g) \<and> aligned (run_init st data g)"
    using run_init_props [of st data g] by simp
  have bg: "valid_refs fr' \<and> aligned fr'"
    if "valid_refs fr" "aligned fr" "run_background self fr = Inr fr'" for fr fr' :: "'g frame"
    using run_background_props [OF that(3,1)] that(2) by simp
  have it: "valid_refs fr' \<and> aligned fr'"
    if "valid_refs fr" "aligned fr" "run_iteration env self fr = Inr (go, fr')" for fr go fr'
    using run_iteration_valid [OF that(3,1)] run_iteration_aligned [OF that(3,1,2)] by simp
  have fin: "aligned fr' \<and>
          (case out of
             Only b \<Rightarrow> length (biclusters_of (heap fr') b) = length (layers_val fr')
           | WithLayers b ls \<Rightarrow> length (biclusters_of (heap fr') b) = length ls)"
    if "valid_refs fr" "aligned fr" "run_finalize self fr = Inr (out, fr')"
    for fr out and fr' :: "'g frame"
    using run_finalize_props [OF that(3,1)] that(2)
    by (cases out) (auto simp: aligned_def biclusters_of_def)
  have whole: "aligned fr \<and>
          (case out of
             Only b \<Rightarrow> length (biclusters_of (heap fr) b) = length (layers_val fr)
           | WithLayers b ls \<Rightarrow> length (biclusters_of (heap fr) b) = length ls)"
    if r: "run env self st data g = Inr (out, fr)" for out fr
  proof -
    from r obtain fr1 fr2 where
      b: "run_background self (run_init st data g) = Inr fr1"
      and d: "run_discover env self (nat (num_biclusters self)) fr1 = Inr fr2"
      and f: "run_finalize self fr2 = Inr (out, fr)"
      by (rule run_phases)
    from bg [OF _ _ b] init have 1: "valid_refs fr1" "aligned fr1" by simp_all
    from run_discover_inv [OF d 1] have 2: "valid_refs fr2" "aligned fr2" by simp_all
    from fin [OF 2 f] show ?thesis .
  qed
  show ?thesis
    using init bg it fin whole by blast
qed

theorem alignment_invariant_witness:
  "\<exists>b ls fr. run toy cfg2 store1 0 0 = Inr (WithLayers b ls, fr) \<and>
     length (biclusters_of (heap fr) b) = length ls \<and> length ls = 3"
proof -
  have "case run toy cfg2 store1 0 0 of
          Inl e \<Rightarrow> False
        | Inr (out, fr) \<Rightarrow> (case out of Only b \<Rightarrow> False | WithLayers b ls \<Rightarrow> length ls = 3)"
    by code_simp
  then obtain b ls fr where e: "run toy cfg2 store1 0 0 = Inr (WithLayers b ls, fr)"
    and l: "length ls = 3"
    by (auto split: sum.splits outcome.splits)
  from alignment_invariant [of store1 0 0 cfg2 toy] e
  have "length (biclusters_of (heap fr) b) = length ls" by auto
  with e l show ?thesis by blast
qed

subsection \<open>The background entry and the residual entry\<close>














lemma arange_length [simp]: "length (arange n) = n"
  by (simp add: arange_def)







subsection \<open>Validation of the parameters\<close>

text \<open>
  Claim C4. The claim asks for a configuration error when the number of pruning rounds
  is not positive; the check accepts the defaults with \<open>iterations_per_layer = 0\<close>.
\<close>

theorem validate_parameters_zero_rounds:
  "validate_parameters (default_plaid\<lparr>iterations_per_layer := 0\<rparr>) = Inr ()"
  by (simp add: validate_parameters_def default_plaid_def)

end
